theory Spec2Isabelle
  imports Main
begin

section \<open>The local storage manager (src/local_storage.py)\<close>

text \<open>
  The class \<open>LocalStorageManager\<close> keeps a list of image descriptions, newest first,
  a capacity \<open>max_images\<close>, and the set of file names that have been uploaded, which it
  also writes to the file \<open>upload_status.json\<close>. The embedding passes the object as a
  record and returns it updated. What the operating system answers (does a file exist,
  what does \<open>os.stat\<close> return, does a write fail) is an argument of the operation that
  asks. Calls of the logger change nothing the program reads and are left out.

  The time stamps of \<open>os.stat\<close> are numbers of seconds, here integers. A description
  holds what \<open>datetime.fromtimestamp\<close> makes of them: a date and time of the machine's
  local time zone, without zone. Such values are ordered as the numbers of seconds since
  the start of year 1 that they stand for, and they are modelled by these numbers.
  \<open>datetime.fromtimestamp\<close> depends on the time zone of the machine, and it raises
  for a time stamp that it cannot turn into a date between the years 1 and 9999
  (\<open>ValueError\<close>, \<open>OverflowError\<close> or \<open>OSError\<close>); it is the parameter
  \<open>fromtimestamp\<close> of the operations that call it.
\<close>

type_synonym timestamp = int
type_synonym datetime = int

datatype py_error = IndexError | OSError | ValueError | OverflowError

type_synonym local_time = "timestamp \<Rightarrow> py_error + datetime"

record image_info =
  filename :: string
  filepath :: string
  size_bytes :: nat
  created :: datetime
  modified :: datetime

record stat_result =
  st_size :: nat
  st_ctime :: timestamp
  st_mtime :: timestamp

text \<open>
  What \<open>os.path.exists\<close> followed by \<open>os.stat\<close> finds for a path: no such file, a file
  whose \<open>stat\<close> raises, or the file's \<open>stat\<close> result.
\<close>

datatype file_probe = Missing | Stat_raises | Stat stat_result

text \<open>
  The file \<open>upload_status.json\<close> as Python sees it: absent, or its text. The text that
  \<open>json.dump\<close> produces for the dictionary built in \<open>_save_upload_status\<close> (the names
  of the set in the set's iteration order, and the current time) is the parameter
  \<open>enc\<close>; what \<open>json.load\<close> and \<open>data.get('uploaded_images', [])\<close> read back from a
  text is the parameter \<open>dec\<close>, \<open>None\<close> when they raise.
\<close>

type_synonym encoder = "string set \<Rightarrow> string"
type_synonym decoder = "string \<Rightarrow> string set option"

record storage =
  max_images :: int
  storage_dir :: string
  images :: "image_info list"
  uploaded_images :: "string set"
  upload_status_file :: string
  status_on_disk :: "string option"

subsection \<open>Paths\<close>

text \<open>\<open>os.path.basename\<close> (posixpath): the part after the last slash.\<close>

definition basename :: "string \<Rightarrow> string" where
  "basename p = rev (takeWhile (\<lambda>c. c \<noteq> CHR ''/'') (rev p))"

text \<open>\<open>os.path.join\<close> (posixpath) of two components.\<close>

definition path_join :: "string \<Rightarrow> string \<Rightarrow> string" where
  "path_join a b =
     (if b \<noteq> [] \<and> hd b = CHR ''/'' then b
      else if a = [] \<or> last a = CHR ''/'' then a @ b
      else a @ ''/'' @ b)"

subsection \<open>The upload ledger\<close>

text \<open>
  \<open>_save_upload_status\<close> opens the status file itself with mode \<open>'w'\<close>, which empties
  it, and \<open>json.dump\<close> then writes the new text into it. The body of the \<open>try\<close> block
  can end in three ways: it completes; \<open>open\<close> raises, and the file is as before; or it
  is interrupted after \<open>open\<close> has emptied the file and \<open>k\<close> characters of the new
  text have reached it (an exception in \<open>json.dump\<close> or in the write; \<open>k\<close> is zero
  when nothing has been flushed yet). \<open>write_status_file\<close> is that body: it returns
  the file and the exception, if any.
\<close>

datatype write_outcome = Write_ok | Open_raises | Dump_raises nat

fun write_status_file ::
  "string option \<Rightarrow> string \<Rightarrow> write_outcome \<Rightarrow> string option \<times> py_error option" where
  "write_status_file old doc Write_ok = (Some doc, None)"
| "write_status_file old doc Open_raises = (old, Some OSError)"
| "write_status_file old doc (Dump_raises k) = (Some (take k doc), Some OSError)"

text \<open>
  \<open>_save_upload_status\<close>: the \<open>except Exception\<close> clause logs the exception and
  returns, so the caller sees no error.
\<close>

definition save_upload_status :: "encoder \<Rightarrow> storage \<Rightarrow> write_outcome \<Rightarrow> storage" where
  "save_upload_status enc st oc =
     (case write_status_file (status_on_disk st) (enc (uploaded_images st)) oc of
        (file, _) \<Rightarrow> st\<lparr>status_on_disk := file\<rparr>)"

definition mark_as_uploaded :: "encoder \<Rightarrow> storage \<Rightarrow> string \<Rightarrow> write_outcome \<Rightarrow> storage" where
  "mark_as_uploaded enc st fname oc =
     save_upload_status enc (st\<lparr>uploaded_images := insert fname (uploaded_images st)\<rparr>) oc"

definition is_uploaded :: "storage \<Rightarrow> string \<Rightarrow> bool" where
  "is_uploaded st fname = (fname \<in> uploaded_images st)"

text \<open>
  \<open>_load_upload_status\<close>: when the file exists its text is decoded; an exception
  (logged) leaves the empty set.
\<close>

definition load_upload_status :: "decoder \<Rightarrow> storage \<Rightarrow> storage" where
  "load_upload_status dec st =
     (case status_on_disk st of
        None \<Rightarrow> st
      | Some txt \<Rightarrow>
          (case dec txt of
             None \<Rightarrow> st\<lparr>uploaded_images := {}\<rparr>
           | Some names \<Rightarrow> st\<lparr>uploaded_images := names\<rparr>))"

subsection \<open>The queue\<close>

text \<open>
  \<open>_manage_queue_size\<close>: while the list is longer than \<open>max_images\<close>, pop its last
  element. The popped image's file is moved to the backup directory or deleted, with
  every exception of that caught inside the loop; the list does not depend on it.
  \<open>list.pop\<close> on an empty list raises \<open>IndexError\<close> outside that \<open>try\<close>, which happens
  exactly when \<open>max_images\<close> is negative; the exception leaves the function with the
  list as it is then.
\<close>

function manage_queue_size :: "storage \<Rightarrow> storage \<times> py_error option" where
  "manage_queue_size st =
     (if int (length (images st)) > max_images st then
        (if images st = [] then (st, Some IndexError)
         else manage_queue_size (st\<lparr>images := butlast (images st)\<rparr>))
      else (st, None))"
  by pat_completeness auto
termination
  by (relation "measure (\<lambda>st. length (images st))") auto

text \<open>
  \<open>add_image\<close>: returns \<open>False\<close> when the file does not exist or an exception is
  caught: from \<open>os.stat\<close>, from \<open>datetime.fromtimestamp\<close> on the creation time or on
  the modification time (the list is then as before), or the \<open>IndexError\<close> of
  \<open>_manage_queue_size\<close>. Otherwise it returns \<open>True\<close>. The new description goes to
  the front of the list.
\<close>

definition add_image ::
  "local_time \<Rightarrow> storage \<Rightarrow> string \<Rightarrow> file_probe \<Rightarrow> storage \<times> bool" where
  "add_image fromtimestamp st path probe =
     (case probe of
        Missing \<Rightarrow> (st, False)
      | Stat_raises \<Rightarrow> (st, False)
      | Stat s \<Rightarrow>
          (case fromtimestamp (st_ctime s) of
             Inl e \<Rightarrow> (st, False)
           | Inr c \<Rightarrow>
               (case fromtimestamp (st_mtime s) of
                  Inl e \<Rightarrow> (st, False)
                | Inr m \<Rightarrow>
                    (let image = \<lparr>filename = basename path, filepath = path,
                                   size_bytes = st_size s, created = c, modified = m\<rparr>;
                         (st', err) = manage_queue_size (st\<lparr>images := image # images st\<rparr>)
                     in (st', err = None)))))"


text \<open>
  \<open>remove_image\<close>: the first description with the file name is popped and its file
  deleted; \<open>deleted\<close> is false when \<open>os.remove\<close> raises, which the function catches,
  returning \<open>False\<close> with the description already gone.
\<close>

fun pop_first :: "string \<Rightarrow> image_info list \<Rightarrow> image_info list option" where
  "pop_first fname [] = None"
| "pop_first fname (x # xs) =
     (if filename x = fname then Some xs
      else map_option (\<lambda>ys. x # ys) (pop_first fname xs))"

definition remove_image :: "storage \<Rightarrow> string \<Rightarrow> bool \<Rightarrow> storage \<times> bool" where
  "remove_image st fname deleted =
     (case pop_first fname (images st) of
        None \<Rightarrow> (st, False)
      | Some rest \<Rightarrow> (st\<lparr>images := rest\<rparr>, deleted))"

text \<open>\<open>get_upload_queue\<close>: the images not marked uploaded, in the order of the list.\<close>

definition get_upload_queue :: "storage \<Rightarrow> image_info list" where
  "get_upload_queue st = filter (\<lambda>img. \<not> is_uploaded st (filename img)) (images st)"

subsection \<open>Construction\<close>

text \<open>
  \<open>_load_images\<close> lists the storage directory, keeps the names that end, in lower
  case, in \<open>.jpg\<close>, \<open>.jpeg\<close> or \<open>.png\<close>, and describes each of these files. An
  \<open>OSError\<close> of \<open>os.stat\<close> or of \<open>datetime.fromtimestamp\<close> is caught and the file
  left out; any other exception of \<open>datetime.fromtimestamp\<close> is not caught and leaves
  \<open>_load_images\<close>. The descriptions are sorted by creation date, newest first
  (Python's sort is stable, also with \<open>reverse=True\<close>). \<open>str.lower\<close> is modelled on the
  letters \<open>A\<close> to \<open>Z\<close>, which is all the three suffixes can match.
\<close>

definition lower_char :: "char \<Rightarrow> char" where
  "lower_char c =
     (if (65::nat) \<le> of_char c \<and> of_char c \<le> (90::nat)
      then char_of (of_char c + (32::nat)) else c)"

definition lower :: "string \<Rightarrow> string" where
  "lower s = map lower_char s"

definition endswith :: "string \<Rightarrow> string \<Rightarrow> bool" where
  "endswith s suf = (length suf \<le> length s \<and> drop (length s - length suf) s = suf)"

definition is_image_name :: "string \<Rightarrow> bool" where
  "is_image_name name =
     (endswith (lower name) ''.jpg'' \<or> endswith (lower name) ''.jpeg''
      \<or> endswith (lower name) ''.png'')"

text \<open>
  The storage directory as \<open>_load_images\<close> finds it: absent, one whose \<open>os.listdir\<close>
  raises, or its names in the order \<open>os.listdir\<close> gives them, each with its \<open>os.stat\<close>
  result (\<open>None\<close> when \<open>os.stat\<close> raises \<open>OSError\<close>).
\<close>

datatype dir_listing =
  No_directory | Listdir_raises | Listing "(string \<times> stat_result option) list"

text \<open>
  The creation date and the modification date of a \<open>stat\<close> result, in the order in
  which the dictionary of the description evaluates them: the first exception is the
  one raised.
\<close>

definition convert_times :: "local_time \<Rightarrow> stat_result \<Rightarrow> py_error + datetime \<times> datetime" where
  "convert_times fromtimestamp s =
     (case fromtimestamp (st_ctime s) of
        Inl e \<Rightarrow> Inl e
      | Inr c \<Rightarrow>
          (case fromtimestamp (st_mtime s) of
             Inl e \<Rightarrow> Inl e
           | Inr m \<Rightarrow> Inr (c, m)))"

fun describe_files ::
  "local_time \<Rightarrow> string \<Rightarrow> (string \<times> stat_result option) list \<Rightarrow>
   py_error + image_info list" where
  "describe_files fromtimestamp dir [] = Inr []"
| "describe_files fromtimestamp dir ((name, st) # rest) =
     (if is_image_name name then
        (case st of
           None \<Rightarrow> describe_files fromtimestamp dir rest
         | Some s \<Rightarrow>
             (case convert_times fromtimestamp s of
                Inl e \<Rightarrow>
                  (if e = OSError then describe_files fromtimestamp dir rest else Inl e)
              | Inr (c, m) \<Rightarrow>
                  map_sum id
                    (\<lambda>imgs. \<lparr>filename = name, filepath = path_join dir name,
                              size_bytes = st_size s, created = c, modified = m\<rparr> # imgs)
                    (describe_files fromtimestamp dir rest)))
      else describe_files fromtimestamp dir rest)"

definition load_images :: "local_time \<Rightarrow> string \<Rightarrow> dir_listing \<Rightarrow> py_error + image_info list" where
  "load_images fromtimestamp dir listing =
     (case listing of
        No_directory \<Rightarrow> Inr []
      | Listdir_raises \<Rightarrow> Inl OSError
      | Listing entries \<Rightarrow>
          map_sum id (sort_key (\<lambda>img. - created img))
            (describe_files fromtimestamp dir entries))"

text \<open>
  \<open>__init__\<close> stores \<open>max_images\<close> as it is given, creates the storage directory
  (\<open>os.makedirs\<close> may raise), loads the images (an exception of \<open>_load_images\<close>
  leaves the constructor) and then the upload status. Nothing in it looks at the value
  of \<open>max_images\<close>.
\<close>

definition init ::
  "local_time \<Rightarrow> decoder \<Rightarrow> int \<Rightarrow> string \<Rightarrow> bool \<Rightarrow> dir_listing \<Rightarrow> string option \<Rightarrow>
   py_error + storage" where
  "init fromtimestamp dec capacity dir makedirs_ok listing status_file =
     (if \<not> makedirs_ok then Inl OSError
      else
        (case load_images fromtimestamp dir listing of
           Inl e \<Rightarrow> Inl e
         | Inr imgs \<Rightarrow>
             Inr (load_upload_status dec
                   \<lparr>max_images = capacity, storage_dir = dir, images = imgs,
                    uploaded_images = {},
                    upload_status_file = path_join dir ''upload_status.json'',
                    status_on_disk = status_file\<rparr>)))"

subsection \<open>Sequences of operations\<close>

text \<open>
  The operations that callers apply to one manager during a process, each with the
  answer of the operating system it meets.
\<close>

datatype queue_op =
  Add_image string file_probe
| Remove_image string bool
| Mark_as_uploaded string write_outcome

fun apply_op :: "local_time \<Rightarrow> encoder \<Rightarrow> storage \<Rightarrow> queue_op \<Rightarrow> storage" where
  "apply_op ft enc st (Add_image path probe) = fst (add_image ft st path probe)"
| "apply_op ft enc st (Remove_image fname deleted) = fst (remove_image st fname deleted)"
| "apply_op ft enc st (Mark_as_uploaded fname oc) = mark_as_uploaded enc st fname oc"

fun run_ops :: "local_time \<Rightarrow> encoder \<Rightarrow> storage \<Rightarrow> queue_op list \<Rightarrow> storage" where
  "run_ops ft enc st [] = st"
| "run_ops ft enc st (x # xs) = run_ops ft enc (apply_op ft enc st x) xs"

text \<open>A run of \<open>add_image\<close> calls, each on a file that exists and has a \<open>stat\<close> result.\<close>

fun add_images :: "local_time \<Rightarrow> storage \<Rightarrow> (string \<times> stat_result) list \<Rightarrow> storage" where
  "add_images ft st [] = st"
| "add_images ft st ((path, s) # rest) =
     add_images ft (fst (add_image ft st path (Stat s))) rest"


section \<open>The upload loops (src/web_app.py)\<close>

text \<open>
  The module keeps the counters in the dictionary \<open>system_status\<close>. The uploader is an
  external collaborator: \<open>uploader.upload(path)\<close> returns a location, returns nothing,
  or raises. The paths it is called with are recorded in \<open>upload_calls\<close>, in the order
  of the calls, so that theorems can speak about which uploads were attempted.
\<close>

record system_status =
  online :: bool
  last_check :: timestamp
  pending_uploads :: nat
  total_captures :: nat
  successful_uploads :: nat
  failed_uploads :: nat

datatype upload_reply = Returns "string option" | Raises

text \<open>Python's truth value of the returned location: \<open>None\<close> and \<open>''\<close> are false.\<close>

definition truthy :: "string option \<Rightarrow> bool" where
  "truthy loc = (case loc of None \<Rightarrow> False | Some s \<Rightarrow> s \<noteq> [])"

record app =
  storage_manager :: storage
  status :: system_status
  upload_calls :: "string list"

definition count_success :: "app \<Rightarrow> app" where
  "count_success a =
     a\<lparr>status := (status a)\<lparr>successful_uploads := successful_uploads (status a) + 1\<rparr>\<rparr>"

definition count_failure :: "app \<Rightarrow> app" where
  "count_failure a =
     a\<lparr>status := (status a)\<lparr>failed_uploads := failed_uploads (status a) + 1\<rparr>\<rparr>"

definition call_upload :: "app \<Rightarrow> string \<Rightarrow> app" where
  "call_upload a path = a\<lparr>upload_calls := upload_calls a @ [path]\<rparr>"

definition mark_in_app :: "encoder \<Rightarrow> app \<Rightarrow> string \<Rightarrow> write_outcome \<Rightarrow> app" where
  "mark_in_app enc a fname oc =
     a\<lparr>storage_manager := mark_as_uploaded enc (storage_manager a) fname oc\<rparr>"

text \<open>
  The \<open>for\<close> loop of \<open>upload_worker\<close> over the batch. The \<open>k\<close>-th iteration gets the
  reply \<open>up k\<close> of the uploader and, when it marks, the outcome \<open>wr k\<close> of writing the
  status file. A reply that is false, and an exception, count a failure and \<open>break\<close>.
\<close>

fun upload_batch ::
  "encoder \<Rightarrow> (nat \<Rightarrow> upload_reply) \<Rightarrow> (nat \<Rightarrow> write_outcome) \<Rightarrow> nat \<Rightarrow>
   image_info list \<Rightarrow> app \<Rightarrow> app" where
  "upload_batch enc up wr k [] a = a"
| "upload_batch enc up wr k (img # rest) a =
     (case up k of
        Returns location \<Rightarrow>
          (if truthy location then
             upload_batch enc up wr (Suc k) rest
               (mark_in_app enc (count_success (call_upload a (filepath img)))
                  (filename img) (wr k))
           else count_failure (call_upload a (filepath img)))
      | Raises \<Rightarrow> count_failure (call_upload a (filepath img)))"

text \<open>
  One pass of the \<open>while True\<close> loop of \<open>upload_worker\<close>, up to its \<open>time.sleep\<close>:
  \<open>connected\<close> is the answer of \<open>check_internet_connection\<close>, \<open>now\<close> the clock.
\<close>

definition upload_worker_cycle ::
  "encoder \<Rightarrow> (nat \<Rightarrow> upload_reply) \<Rightarrow> (nat \<Rightarrow> write_outcome) \<Rightarrow> bool \<Rightarrow> timestamp \<Rightarrow>
   app \<Rightarrow> app" where
  "upload_worker_cycle enc up wr connected now a =
     (if connected then
        (let a0 = a\<lparr>status := (status a)\<lparr>online := True, last_check := now\<rparr>\<rparr>;
             images_to_upload = get_upload_queue (storage_manager a0);
             a1 = (if images_to_upload \<noteq> []
                   then upload_batch enc up wr 0 (take 5 images_to_upload) a0 else a0)
         in a1\<lparr>status := (status a1)
                 \<lparr>pending_uploads := length (get_upload_queue (storage_manager a1))\<rparr>\<rparr>)
      else a\<lparr>status := (status a)\<lparr>online := False, last_check := now\<rparr>\<rparr>)"




section \<open>The GPIO poll loop (src/gpio_service.py)\<close>

text \<open>
  \<open>GPIOService\<close> holds the dictionary \<open>pins\<close> from camera names to pin numbers (an
  association list in the dictionary's order; the pin numbers come from \<open>config\<close>),
  the registered callbacks (here the set of camera names that have one) and the last
  value read on each pin. Two lists record what the loop did, in order: \<open>sampled\<close> the
  values that \<open>GPIO.input\<close> returned, with the camera they were read for, and \<open>fired\<close>
  the calls of callbacks. An exception inside a callback is caught where it is called,
  so the call is recorded and the loop goes on.
\<close>

record gpio_service =
  gpio_available :: bool
  monitoring :: bool
  pins :: "(string \<times> int) list"
  callbacks :: "string set"
  pin_states :: "int \<rightharpoonup> int"
  sampled :: "(string \<times> int) list"
  fired :: "string list"

definition register_callback :: "gpio_service \<Rightarrow> string \<Rightarrow> gpio_service" where
  "register_callback g camera_id =
     (if camera_id \<in> set (map fst (pins g))
      then g\<lparr>callbacks := insert camera_id (callbacks g)\<rparr> else g)"

text \<open>\<open>self.pin_states.get(pin, 1)\<close>.\<close>

definition previous_state :: "gpio_service \<Rightarrow> int \<Rightarrow> int" where
  "previous_state g pin = (case pin_states g pin of None \<Rightarrow> 1 | Some v \<Rightarrow> v)"

text \<open>
  The body of the \<open>for\<close> loop for a camera with a callback, once \<open>GPIO.input\<close> has
  returned \<open>current_state\<close>.
\<close>

definition sample_pin :: "gpio_service \<Rightarrow> string \<Rightarrow> int \<Rightarrow> int \<Rightarrow> gpio_service" where
  "sample_pin g camera_id pin current_state =
     (let g1 = g\<lparr>sampled := sampled g @ [(camera_id, current_state)]\<rparr>;
          g2 = (if previous_state g1 pin = 1 \<and> current_state = 0
                then g1\<lparr>fired := fired g1 @ [camera_id]\<rparr> else g1)
      in g2\<lparr>pin_states := (pin_states g2)(pin \<mapsto> current_state)\<rparr>)"

text \<open>
  The \<open>for\<close> loop over \<open>self.pins.items()\<close> in one pass of \<open>_monitor_pins\<close>. \<open>rd pin\<close> is
  what \<open>GPIO.input(pin)\<close> does in this pass: a value, or \<open>None\<close> when it raises; the
  exception ends the pass (it is caught around the \<open>for\<close> loop).
\<close>

fun poll_pins :: "(int \<Rightarrow> int option) \<Rightarrow> (string \<times> int) list \<Rightarrow> gpio_service \<Rightarrow> gpio_service" where
  "poll_pins rd [] g = g"
| "poll_pins rd ((camera_id, pin) # rest) g =
     (if camera_id \<notin> callbacks g then poll_pins rd rest g
      else
        (case rd pin of
           None \<Rightarrow> g
         | Some current_state \<Rightarrow> poll_pins rd rest (sample_pin g camera_id pin current_state)))"

text \<open>
  \<open>_monitor_pins\<close>: the \<open>while self.monitoring\<close> loop, one pass for each element of
  the list of readings; the list is as long as the loop is left running.
\<close>

fun monitor_pins :: "(int \<Rightarrow> int option) list \<Rightarrow> gpio_service \<Rightarrow> gpio_service" where
  "monitor_pins [] g = g"
| "monitor_pins (rd # rds) g =
     (if monitoring g then monitor_pins rds (poll_pins rd (pins g) g) else g)"

text \<open>The values sampled for a camera, and the number of calls of its callback.\<close>

definition samples_of :: "gpio_service \<Rightarrow> string \<Rightarrow> int list" where
  "samples_of g camera_id = map snd (filter (\<lambda>e. fst e = camera_id) (sampled g))"

definition fired_count :: "gpio_service \<Rightarrow> string \<Rightarrow> nat" where
  "fired_count g camera_id = length (filter (\<lambda>c. c = camera_id) (fired g))"

text \<open>
  The specification's count, written from its words: the number of places in a
  sequence of line values where a high value (1) is followed by a low value (0).
\<close>

fun falling_edges :: "int list \<Rightarrow> nat" where
  "falling_edges (a # b # vs) =
     (if a = 1 \<and> b = 0 then 1 else 0) + falling_edges (b # vs)"
| "falling_edges vs = 0"

text \<open>Whether a camera's pin is the pin of another camera that has a callback.\<close>

definition pin_shared :: "gpio_service \<Rightarrow> string \<Rightarrow> int \<Rightarrow> bool" where
  "pin_shared g camera_id pin =
     (filter (\<lambda>e. fst e \<noteq> camera_id \<and> fst e \<in> callbacks g \<and> snd e = pin) (pins g) \<noteq> [])"

section \<open>Vocabulary of the theorems\<close>

text \<open>
  Whether \<open>datetime.fromtimestamp\<close> accepts both time stamps of a \<open>stat\<close> result, and
  the description that \<open>add_image\<close> then builds for a path.
\<close>

definition converts :: "local_time \<Rightarrow> stat_result \<Rightarrow> bool" where
  "converts ft s = (\<not> isl (ft (st_ctime s)) \<and> \<not> isl (ft (st_mtime s)))"

definition describe :: "local_time \<Rightarrow> string \<Rightarrow> stat_result \<Rightarrow> image_info" where
  "describe ft path s =
     \<lparr>filename = basename path, filepath = path, size_bytes = st_size s,
      created = projr (ft (st_ctime s)), modified = projr (ft (st_mtime s))\<rparr>"

text \<open>
  A conversion for examples, that of a machine whose time zone is UTC: the time stamps
  from the second day of the year 1 to the end of the year 9999 become dates, and a
  time stamp just outside raises \<open>ValueError\<close> (on the first day of the year 1 because
  \<open>datetime.fromtimestamp\<close> also converts the time one day earlier). Far outside,
  Python raises one of the other two exceptions; no example goes there.
\<close>

definition utc :: local_time where
  "utc ts =
     (if ts < - 62135510400 \<or> 253402300799 < ts then Inl ValueError
      else Inr (ts + 62135596800))"

text \<open>
  A \<open>stat\<close> result whose modification time is the first second of the year 10000 (a
  time that \<open>os.utime\<close> can give a file).
\<close>

definition stat_late :: stat_result where
  "stat_late = \<lparr>st_size = 10, st_ctime = 100, st_mtime = 253402300800\<rparr>"

text \<open>Whether a reply of the uploader counts as a success in the two upload loops.\<close>

definition upload_ok :: "upload_reply \<Rightarrow> bool" where
  "upload_ok r = (case r of Returns location \<Rightarrow> truthy location | Raises \<Rightarrow> False)"

text \<open>An empty manager of a given capacity, a \<open>stat\<close> result and an encoder, for examples.\<close>

definition empty_storage :: "int \<Rightarrow> storage" where
  "empty_storage capacity =
     \<lparr>max_images = capacity, storage_dir = ''images'', images = [], uploaded_images = {},
      upload_status_file = ''images/upload_status.json'', status_on_disk = None\<rparr>"

definition stat0 :: stat_result where
  "stat0 = \<lparr>st_size = 10, st_ctime = 100, st_mtime = 100\<rparr>"

text \<open>An encoder for examples: it writes the name \<open>a.jpg\<close> when the set has it.\<close>

definition example_enc :: encoder where
  "example_enc names = (if ''a.jpg'' \<in> names then ''uploaded: a.jpg'' else ''uploaded:'')"


text \<open>The module state at start: the counters of \<open>system_status\<close> at zero, no upload called yet.\<close>

definition initial_app :: "storage \<Rightarrow> app" where
  "initial_app st =
     \<lparr>storage_manager = st,
      status = \<lparr>online = True, last_check = 0, pending_uploads = 0, total_captures = 0,
                successful_uploads = 0, failed_uploads = 0\<rparr>,
      upload_calls = []\<rparr>"

text \<open>Uploaders and writers for examples: every upload succeeds; all but the second; all but the first; every write succeeds.\<close>

definition always_ok :: "nat \<Rightarrow> upload_reply" where
  "always_ok k = Returns (Some ''remote'')"

definition second_fails :: "nat \<Rightarrow> upload_reply" where
  "second_fails k = (if k = 1 then Returns None else Returns (Some ''remote''))"


definition writes_ok :: "nat \<Rightarrow> write_outcome" where
  "writes_ok k = Write_ok"

text \<open>Queues for examples, built by \<open>add_image\<close> calls on an empty manager of capacity 50.\<close>

definition five_pending :: storage where
  "five_pending = add_images utc (empty_storage 50)
     [(''images/a.jpg'', stat0), (''images/b.jpg'', stat0), (''images/c.jpg'', stat0),
      (''images/d.jpg'', stat0), (''images/e.jpg'', stat0)]"


definition six_pending :: storage where
  "six_pending = add_images utc (empty_storage 50)
     [(''images/a.jpg'', stat0), (''images/b.jpg'', stat0), (''images/c.jpg'', stat0),
      (''images/d.jpg'', stat0), (''images/e.jpg'', stat0), (''images/f.jpg'', stat0)]"

definition five_with_duplicate :: storage where
  "five_with_duplicate = add_images utc (empty_storage 50)
     [(''images/d.jpg'', stat0), (''images/c.jpg'', stat0), (''images/b.jpg'', stat0),
      (''images/a.jpg'', stat0), (''images/a.jpg'', stat0)]"

text \<open>
  How far one run of the poll loop takes a camera \<open>c\<close> on pin \<open>p\<close>: the configuration
  is unchanged, some values \<open>vs\<close> have been sampled for \<open>c\<close>, its callback has been
  called once for every fall in the stored value followed by \<open>vs\<close>, and the stored
  value of the pin is the last of them.
\<close>

definition advances :: "string \<Rightarrow> int \<Rightarrow> gpio_service \<Rightarrow> gpio_service \<Rightarrow> bool" where
  "advances c p g g' =
     (pins g' = pins g \<and> callbacks g' = callbacks g \<and> monitoring g' = monitoring g
      \<and> (\<exists>vs. samples_of g' c = samples_of g c @ vs
            \<and> fired_count g' c = fired_count g c + falling_edges (previous_state g p # vs)
            \<and> previous_state g' p = last (previous_state g p # vs)))"

text \<open>
  Every camera of a list that has a callback is \<open>c\<close> on pin \<open>p\<close>, or another camera on
  another pin.
\<close>

definition apart :: "string \<Rightarrow> int \<Rightarrow> string set \<Rightarrow> (string \<times> int) list \<Rightarrow> bool" where
  "apart c p cbs ps =
     list_all (\<lambda>e. fst e \<in> cbs \<longrightarrow> (if fst e = c then snd e = p else snd e \<noteq> p)) ps"

text \<open>
  A service for examples: two cameras on pins 18 and 19, both with callbacks, both lines
  last seen high; and a pass in which pin 18 reads \<open>v\<close> and every other pin reads high.
\<close>

definition two_cameras :: gpio_service where
  "two_cameras =
     \<lparr>gpio_available = True, monitoring = True,
      pins = [(''camera_1'', 18), (''camera_2'', 19)],
      callbacks = {''camera_1'', ''camera_2''},
      pin_states = [18 \<mapsto> 1, 19 \<mapsto> 1],
      sampled = [], fired = []\<rparr>"

text \<open>The same service with both cameras configured on pin 18.\<close>

definition shared_pin :: gpio_service where
  "shared_pin =
     \<lparr>gpio_available = True, monitoring = True,
      pins = [(''camera_1'', 18), (''camera_2'', 18)],
      callbacks = {''camera_1'', ''camera_2''},
      pin_states = [18 \<mapsto> 1],
      sampled = [], fired = []\<rparr>"

definition line_reads :: "int \<Rightarrow> int \<Rightarrow> int option" where
  "line_reads v pin = (if pin = 18 then Some v else Some 1)"

section \<open>The capacity of the queue\<close>

declare manage_queue_size.simps [simp del]

lemma manage_queue_size_take:
  "0 \<le> max_images st \<Longrightarrow>
   manage_queue_size st = (st\<lparr>images := take (nat (max_images st)) (images st)\<rparr>, None)"
proof (induction st rule: manage_queue_size.induct)
  case (1 st)
  show ?case
  proof (cases "int (length (images st)) > max_images st")
    case False
    then show ?thesis
      by (subst manage_queue_size.simps) simp
  next
    case True
    with "1.prems" have ne: "images st \<noteq> []" by auto
    from True "1.prems" have lt: "nat (max_images st) < length (images st)" by linarith
    have tk: "take (nat (max_images st)) (butlast (images st)) = take (nat (max_images st)) (images st)"
      using lt by (simp add: butlast_conv_take)
    have "manage_queue_size st = manage_queue_size (st\<lparr>images := butlast (images st)\<rparr>)"
      using True ne by (subst manage_queue_size.simps) simp
    also have "\<dots> = (st\<lparr>images := take (nat (max_images st)) (images st)\<rparr>, None)"
      using "1.IH" [OF True ne] "1.prems" tk by simp
    finally show ?thesis .
  qed
qed

lemma manage_queue_size_negative:
  "max_images st < 0 \<Longrightarrow> manage_queue_size st = (st\<lparr>images := []\<rparr>, Some IndexError)"
proof (induction st rule: manage_queue_size.induct)
  case (1 st)
  show ?case
  proof (cases "images st = []")
    case True
    with "1.prems" show ?thesis
      by (subst manage_queue_size.simps) simp
  next
    case False
    from "1.prems" have gt: "int (length (images st)) > max_images st" by linarith
    have "manage_queue_size st = manage_queue_size (st\<lparr>images := butlast (images st)\<rparr>)"
      using gt False by (subst manage_queue_size.simps) simp
    also have "\<dots> = (st\<lparr>images := []\<rparr>, Some IndexError)"
      using "1.IH" [OF gt False] "1.prems" by simp
    finally show ?thesis .
  qed
qed

lemma converts_utc_stat0 [simp]: "converts utc stat0"
  by (simp add: converts_def utc_def stat0_def)

lemma add_image_stat:
  "0 \<le> max_images st \<Longrightarrow> converts ft s \<Longrightarrow>
   add_image ft st path (Stat s) =
     (st\<lparr>images := take (nat (max_images st)) (describe ft path s # images st)\<rparr>, True)"
  by (auto simp: add_image_def manage_queue_size_take describe_def converts_def
      split: sum.splits)

lemma add_image_negative:
  "max_images st < 0 \<Longrightarrow> converts ft s \<Longrightarrow>
   add_image ft st path (Stat s) = (st\<lparr>images := []\<rparr>, False)"
  by (auto simp: add_image_def manage_queue_size_negative converts_def split: sum.splits)

lemma add_image_unconverted:
  "\<not> converts ft s \<Longrightarrow> add_image ft st path (Stat s) = (st, False)"
  by (auto simp: add_image_def converts_def split: sum.splits)

lemma add_images_take:
  "0 \<le> max_images st \<Longrightarrow> list_all (converts ft) (map snd ps) \<Longrightarrow>
   add_images ft st ps =
     (if ps = [] then st
      else st\<lparr>images := take (nat (max_images st))
                  (rev (map (\<lambda>(p, s). describe ft p s) ps) @ images st)\<rparr>)"
proof (induction ps arbitrary: st)
  case Nil
  then show ?case by simp
next
  case (Cons x ps)
  obtain p s where x: "x = (p, s)" by (cases x)
  let ?st1 = "st\<lparr>images := take (nat (max_images st)) (describe ft p s # images st)\<rparr>"
  have m: "0 \<le> max_images ?st1" using Cons.prems by simp
  from Cons.prems have c: "converts ft s" and cs: "list_all (converts ft) (map snd ps)"
    by (simp_all add: x)
  show ?case
    using Cons.IH [OF m cs] Cons.prems(1) c
    by (simp add: x add_image_stat take_add min_def)
qed

text \<open>
  Claim C4 speaks of every run of more \<open>add_image\<close> calls than the capacity on
  distinct existing files. An existing file whose time stamp \<open>datetime.fromtimestamp\<close>
  refuses is not added: of three distinct existing files, two of them with a
  modification time in the year 10000, a queue of capacity two holds one afterwards.
\<close>

theorem capacity_unconverted_counterexample:
  "map filepath (images (add_images utc (empty_storage 2)
      [(''images/a.jpg'', stat0), (''images/b.jpg'', stat_late), (''images/c.jpg'', stat_late)]))
   = [''images/a.jpg'']"
proof -
  have late: "\<not> converts utc stat_late"
    by (simp add: converts_def utc_def stat_late_def)
  show ?thesis
    by (simp add: add_image_unconverted [OF late] add_image_stat empty_storage_def describe_def)
qed

text \<open>
  Claim C4, amended. For every capacity of at least one and every run of more
  \<open>add_image\<close> calls than the capacity, each on an existing file whose two time stamps
  \<open>datetime.fromtimestamp\<close> accepts, the queue afterwards holds exactly as many
  descriptions as the capacity, and they are those of the most recently added files,
  newest first. (The files need not even be distinct.) An \<open>add_image\<close> on an existing
  file with a time stamp that is refused returns \<open>False\<close> and leaves the queue as it is.
\<close>

theorem capacity_invariant:
  assumes "1 \<le> max_images st" and "max_images st < int (length ps)"
    and "list_all (converts ft) (map snd ps)"
  shows "length (images (add_images ft st ps)) = nat (max_images st)
       \<and> map filepath (images (add_images ft st ps)) = take (nat (max_images st)) (rev (map fst ps))
       \<and> (\<not> converts ft s \<longrightarrow> add_image ft st path (Stat s) = (st, False))"
proof -
  from assms have ne: "ps \<noteq> []" by auto
  from assms have le: "nat (max_images st) \<le> length ps" by linarith
  have fp: "map filepath (map (\<lambda>(p, s). describe ft p s) ps) = map fst ps"
    by (induction ps) (auto simp: describe_def)
  have img: "images (add_images ft st ps) =
      take (nat (max_images st)) (rev (map (\<lambda>(p, s). describe ft p s) ps))"
    using assms ne le by (simp add: add_images_take)
  have "map filepath (images (add_images ft st ps)) =
      take (nat (max_images st)) (rev (map filepath (map (\<lambda>(p, s). describe ft p s) ps)))"
    unfolding img by (simp add: take_map rev_map)
  then have "map filepath (images (add_images ft st ps)) = take (nat (max_images st)) (rev (map fst ps))"
    unfolding fp .
  moreover have "length (images (add_images ft st ps)) = nat (max_images st)"
    unfolding img using le by simp
  ultimately show ?thesis by (simp add: add_image_unconverted)
qed

theorem capacity_invariant_witness:
  "length (images (add_images utc (empty_storage 2)
      [(''images/a.jpg'', stat0), (''images/b.jpg'', stat0), (''images/c.jpg'', stat0)])) = 2
   \<and> map filepath (images (add_images utc (empty_storage 2)
      [(''images/a.jpg'', stat0), (''images/b.jpg'', stat0), (''images/c.jpg'', stat0)]))
      = [''images/c.jpg'', ''images/b.jpg'']
   \<and> add_image utc (empty_storage 2) ''images/d.jpg'' (Stat stat_late) = (empty_storage 2, False)"
proof -
  have c: "list_all (converts utc) (map snd
      [(''images/a.jpg'', stat0), (''images/b.jpg'', stat0), (''images/c.jpg'', stat0)])"
    by simp
  have late: "\<not> converts utc stat_late"
    by (simp add: converts_def utc_def stat_late_def)
  have m: "1 \<le> max_images (empty_storage 2)"
    "max_images (empty_storage 2) < int (length
      [(''images/a.jpg'', stat0), (''images/b.jpg'', stat0), (''images/c.jpg'', stat0)])"
    by (simp_all add: empty_storage_def)
  have n: "nat (max_images (empty_storage 2)) = 2" by (simp add: empty_storage_def)
  from capacity_invariant [OF m c, of stat_late "''images/d.jpg''"] late show ?thesis
    by (simp add: n)
qed

section \<open>The upload ledger only grows\<close>

lemma uploaded_apply_op: "uploaded_images st \<subseteq> uploaded_images (apply_op ft enc st x)"
proof (cases x)
  case (Add_image path probe)
  show ?thesis
  proof (cases probe)
    case (Stat s)
    show ?thesis
    proof (cases "converts ft s")
      case False
      then show ?thesis by (simp add: Add_image Stat add_image_unconverted)
    next
      case True
      show ?thesis
      proof (cases "0 \<le> max_images st")
        case True
        with \<open>converts ft s\<close> show ?thesis by (simp add: Add_image Stat add_image_stat)
      next
        case False
        with \<open>converts ft s\<close> show ?thesis by (simp add: Add_image Stat add_image_negative)
      qed
    qed
  qed (simp_all add: Add_image add_image_def)
next
  case (Remove_image fname deleted)
  then show ?thesis by (simp add: remove_image_def split: option.splits)
next
  case (Mark_as_uploaded fname oc)
  then show ?thesis
    by (auto simp: mark_as_uploaded_def save_upload_status_def split: prod.splits)
qed

lemma uploaded_run_ops: "uploaded_images st \<subseteq> uploaded_images (run_ops ft enc st xs)"
proof (induction xs arbitrary: st)
  case Nil
  show ?case by simp
next
  case (Cons x xs)
  have "uploaded_images st \<subseteq> uploaded_images (apply_op ft enc st x)"
    by (rule uploaded_apply_op)
  also have "\<dots> \<subseteq> uploaded_images (run_ops ft enc (apply_op ft enc st x) xs)"
    by (rule Cons.IH)
  finally show ?case by simp
qed

lemma uploaded_mark:
  "uploaded_images (mark_as_uploaded enc st fname oc) = insert fname (uploaded_images st)"
  by (simp add: mark_as_uploaded_def save_upload_status_def split: prod.splits)

text \<open>
  Claim C5. Once \<open>mark_as_uploaded\<close> has been called for a file name (whatever
  happened to the write of the status file), \<open>is_uploaded\<close> answers true for it after
  any further sequence of \<open>add_image\<close> calls (with the evictions they cause),
  \<open>remove_image\<close> calls and \<open>mark_as_uploaded\<close> calls, whether or not a description
  with that name is still in the queue.
\<close>

theorem ledger_monotonic:
  "is_uploaded (run_ops ft enc (mark_as_uploaded enc st fname oc) ops) fname"
  using uploaded_run_ops [of "mark_as_uploaded enc st fname oc" ft enc ops]
    uploaded_mark [of enc st fname oc]
  by (auto simp: is_uploaded_def)

text \<open>
  Claim C10. \<open>mark_as_uploaded\<close> always succeeds in memory: whatever the write of the
  status file does, the name is in the set afterwards and \<open>is_uploaded\<close> answers true,
  also after any further operations. When \<open>open\<close> raises, the exception is raised
  inside \<open>_save_upload_status\<close> and goes no further, and the file on disk is what it
  was before the call, without the new name.
\<close>

theorem mark_in_memory:
  "is_uploaded (mark_as_uploaded enc st fname oc) fname
   \<and> snd (write_status_file (status_on_disk st) (enc (insert fname (uploaded_images st))) Open_raises)
       = Some OSError
   \<and> status_on_disk (mark_as_uploaded enc st fname Open_raises) = status_on_disk st
   \<and> is_uploaded (run_ops ft enc (mark_as_uploaded enc st fname oc) ops) fname"
proof -
  have a: "is_uploaded (mark_as_uploaded enc st fname oc) fname"
    by (simp add: is_uploaded_def uploaded_mark)
  have b: "snd (write_status_file (status_on_disk st)
      (enc (insert fname (uploaded_images st))) Open_raises) = Some OSError"
    by simp
  have c: "status_on_disk (mark_as_uploaded enc st fname Open_raises) = status_on_disk st"
    by (simp add: mark_as_uploaded_def save_upload_status_def)
  have d: "is_uploaded (run_ops ft enc (mark_as_uploaded enc st fname oc) ops) fname"
    using uploaded_run_ops [of "mark_as_uploaded enc st fname oc" ft enc ops]
    by (auto simp: is_uploaded_def uploaded_mark)
  from a b c d show ?thesis by blast
qed

section \<open>Writing the status file\<close>

text \<open>
  Claim C3 says that the status file is replaced atomically, through a temporary file.
  The code writes into the status file itself. A save that is interrupted after three
  characters, or right after \<open>open\<close> has emptied the file, leaves a file that is neither
  the old text nor the new one.
\<close>

theorem save_not_atomic_counterexample:
  "status_on_disk (mark_as_uploaded example_enc
      ((empty_storage 50)\<lparr>status_on_disk := Some ''uploaded:''\<rparr>) ''a.jpg'' (Dump_raises 3))
    = Some ''upl''
   \<and> ''upl'' \<noteq> ''uploaded:''
   \<and> ''upl'' \<noteq> example_enc (insert ''a.jpg'' (uploaded_images (empty_storage 50)))
   \<and> status_on_disk (mark_as_uploaded example_enc
      ((empty_storage 50)\<lparr>status_on_disk := Some ''uploaded:''\<rparr>) ''a.jpg'' (Dump_raises 0))
    = Some []
   \<and> [] \<noteq> ''uploaded:''
   \<and> [] \<noteq> example_enc (insert ''a.jpg'' (uploaded_images (empty_storage 50)))"
  by (simp add: mark_as_uploaded_def save_upload_status_def empty_storage_def example_enc_def)

text \<open>
  Claim C3, amended. \<open>mark_as_uploaded\<close> rewrites the status file in place: a save
  that completes leaves the whole new text; a save that is interrupted leaves the
  characters of the new text written so far, and the old text is lost; a save whose
  \<open>open\<close> raises leaves the file as it was. An interrupted save that has not written
  all of the new text does not leave the new text.
\<close>

theorem save_in_place:
  "status_on_disk (mark_as_uploaded enc st fname Write_ok)
     = Some (enc (insert fname (uploaded_images st)))
   \<and> status_on_disk (mark_as_uploaded enc st fname (Dump_raises k))
     = Some (take k (enc (insert fname (uploaded_images st))))
   \<and> status_on_disk (mark_as_uploaded enc st fname Open_raises) = status_on_disk st
   \<and> (k < length (enc (insert fname (uploaded_images st))) \<longrightarrow>
        status_on_disk (mark_as_uploaded enc st fname (Dump_raises k))
          \<noteq> Some (enc (insert fname (uploaded_images st))))"
  by (simp add: mark_as_uploaded_def save_upload_status_def)

theorem save_in_place_witness:
  "status_on_disk (mark_as_uploaded example_enc (empty_storage 50) ''a.jpg'' (Dump_raises 0)) = Some []
   \<and> status_on_disk (mark_as_uploaded example_enc (empty_storage 50) ''a.jpg'' (Dump_raises 0))
       \<noteq> Some (example_enc {''a.jpg''})"
  using save_in_place [of example_enc "empty_storage 50" "''a.jpg''" 0]
  by (simp add: example_enc_def empty_storage_def)

section \<open>Construction does not check the capacity\<close>

text \<open>
  Claim C9 says that a capacity of zero or less is refused at construction. The
  constructor accepts the capacity zero.
\<close>

theorem init_accepts_zero_counterexample:
  "init utc (\<lambda>txt. None) 0 ''images'' True (Listing []) None = Inr (empty_storage 0)"
  by (simp add: init_def load_images_def load_upload_status_def empty_storage_def path_join_def)

lemma init_capacity:
  "init ft dec capacity dir makedirs_ok listing file =
     map_sum id (\<lambda>st. st\<lparr>max_images := capacity\<rparr>)
       (init ft dec other dir makedirs_ok listing file)"
  by (simp add: init_def load_upload_status_def split: sum.splits option.splits)

text \<open>
  Claim C9, amended. The constructor never looks at the capacity: with a capacity of
  zero or less it does what it does with any other capacity, raising the same exception
  when the storage directory cannot be created or listed or a time stamp of a listed
  image is refused, and otherwise returning the same manager, with the capacity as
  given; on a storage directory without files it returns a manager with an empty queue.
  The capacity shows at the next \<open>add_image\<close> of an existing file whose time stamps are
  accepted: with capacity zero it returns \<open>True\<close> and leaves the queue empty; with a
  negative capacity it empties the queue and returns \<open>False\<close>, the \<open>IndexError\<close> of
  \<open>_manage_queue_size\<close> being caught.
\<close>

theorem init_unchecked:
  "init ft dec capacity dir makedirs_ok listing file
     = map_sum id (\<lambda>st. st\<lparr>max_images := capacity\<rparr>)
         (init ft dec other dir makedirs_ok listing file)
   \<and> (\<exists>st. init ft dec capacity dir True (Listing []) file = Inr st
          \<and> max_images st = capacity \<and> images st = [])
   \<and> (max_images st = 0 \<and> converts ft s \<longrightarrow>
        add_image ft st path (Stat s) = (st\<lparr>images := []\<rparr>, True))
   \<and> (max_images st < 0 \<and> converts ft s \<longrightarrow>
        add_image ft st path (Stat s) = (st\<lparr>images := []\<rparr>, False))"
proof -
  have a: "\<exists>st. init ft dec capacity dir True (Listing []) file = Inr st
      \<and> max_images st = capacity \<and> images st = []"
    by (simp add: init_def load_images_def load_upload_status_def split: option.splits)
  have b: "max_images st = 0 \<and> converts ft s \<longrightarrow>
      add_image ft st path (Stat s) = (st\<lparr>images := []\<rparr>, True)"
    by (simp add: add_image_stat)
  have c: "max_images st < 0 \<and> converts ft s \<longrightarrow>
      add_image ft st path (Stat s) = (st\<lparr>images := []\<rparr>, False)"
    by (simp add: add_image_negative)
  from init_capacity [of ft dec capacity dir makedirs_ok listing "file" other] a b c
  show ?thesis by blast
qed

theorem init_unchecked_witness:
  "add_image utc (empty_storage 0) ''images/a.jpg'' (Stat stat0) = (empty_storage 0, True)
   \<and> add_image utc (empty_storage (- 1)) ''images/a.jpg'' (Stat stat0)
       = (empty_storage (- 1), False)
   \<and> init utc (\<lambda>txt. None) (- 1) ''images'' True
         (Listing [(''a.jpg'', Some stat0), (''b.jpg'', Some stat_late)]) None
       = Inl ValueError
   \<and> init utc (\<lambda>txt. None) 50 ''images'' True
         (Listing [(''a.jpg'', Some stat0), (''b.jpg'', Some stat_late)]) None
       = Inl ValueError"
proof -
  have z: "max_images (empty_storage 0) = 0 \<and> converts utc stat0"
    by (simp add: empty_storage_def)
  have n: "max_images (empty_storage (- 1)) < 0 \<and> converts utc stat0"
    by (simp add: empty_storage_def)
  have e: "init utc (\<lambda>txt. None) 50 ''images'' True
      (Listing [(''a.jpg'', Some stat0), (''b.jpg'', Some stat_late)]) None = Inl ValueError"
    by (simp add: init_def load_images_def is_image_name_def endswith_def lower_def
        lower_char_def convert_times_def utc_def stat0_def stat_late_def)
  from init_unchecked [of utc "\<lambda>txt. None" "- 1" "''images''" True
      "Listing [(''a.jpg'', Some stat0), (''b.jpg'', Some stat_late)]" None 50
      "empty_storage 0" stat0 "''images/a.jpg''"]
    init_unchecked [of utc "\<lambda>txt. None" "- 1" "''images''" True
      "Listing [(''a.jpg'', Some stat0), (''b.jpg'', Some stat_late)]" None 50
      "empty_storage (- 1)" stat0 "''images/a.jpg''"]
    z n e
  show ?thesis by (simp add: empty_storage_def)
qed

section \<open>File names in the queue\<close>








section \<open>The upload loops\<close>

lemma basename_images [simp]:
  "basename ''images/a.jpg'' = ''a.jpg''" "basename ''images/b.jpg'' = ''b.jpg''"
  "basename ''images/c.jpg'' = ''c.jpg''" "basename ''images/d.jpg'' = ''d.jpg''"
  "basename ''images/e.jpg'' = ''e.jpg''" "basename ''images/f.jpg'' = ''f.jpg''"
  by (simp_all add: basename_def)

lemma upload_batch_ok:
  "upload_ok (up k) \<Longrightarrow>
   upload_batch enc up wr k (img # rest) a =
     upload_batch enc up wr (Suc k) rest
       (mark_in_app enc (count_success (call_upload a (filepath img))) (filename img) (wr k))"
  by (simp add: upload_ok_def split: upload_reply.splits)

lemma upload_batch_fail:
  "\<not> upload_ok (up k) \<Longrightarrow>
   upload_batch enc up wr k (img # rest) a = count_failure (call_upload a (filepath img))"
  by (simp add: upload_ok_def split: upload_reply.splits)



lemma get_upload_queue_mark:
  "get_upload_queue (mark_as_uploaded enc st fname oc) =
     filter (\<lambda>img. filename img \<noteq> fname) (get_upload_queue st)"
  by (auto simp: get_upload_queue_def is_uploaded_def mark_as_uploaded_def save_upload_status_def
      split: prod.splits intro: filter_cong)

lemma images_mark: "images (mark_as_uploaded enc st fname oc) = images st"
  by (simp add: mark_as_uploaded_def save_upload_status_def split: prod.splits)



lemma six_pending_images:
  "six_pending = (empty_storage 50)\<lparr>images :=
     [describe utc ''images/f.jpg'' stat0, describe utc ''images/e.jpg'' stat0,
      describe utc ''images/d.jpg'' stat0, describe utc ''images/c.jpg'' stat0,
      describe utc ''images/b.jpg'' stat0, describe utc ''images/a.jpg'' stat0]\<rparr>"
  by (simp add: six_pending_def empty_storage_def add_image_stat)

lemma five_pending_images:
  "five_pending = (empty_storage 50)\<lparr>images :=
     [describe utc ''images/e.jpg'' stat0,
      describe utc ''images/d.jpg'' stat0, describe utc ''images/c.jpg'' stat0,
      describe utc ''images/b.jpg'' stat0, describe utc ''images/a.jpg'' stat0]\<rparr>"
  by (simp add: five_pending_def empty_storage_def add_image_stat)

lemma five_with_duplicate_images:
  "five_with_duplicate = (empty_storage 50)\<lparr>images :=
     [describe utc ''images/a.jpg'' stat0,
      describe utc ''images/a.jpg'' stat0, describe utc ''images/b.jpg'' stat0,
      describe utc ''images/c.jpg'' stat0, describe utc ''images/d.jpg'' stat0]\<rparr>"
  by (simp add: five_with_duplicate_def empty_storage_def add_image_stat)

text \<open>
  Claim C1 says that a cycle of the upload worker tries the oldest pending images,
  oldest first. With six pending images, \<open>a\<close> added first and \<open>f\<close> last, and every
  upload succeeding, the cycle uploads \<open>f\<close>, \<open>e\<close>, \<open>d\<close>, \<open>c\<close>, \<open>b\<close> in this order: the
  five newest, newest first, and not the oldest.
\<close>

theorem upload_worker_newest_first:
  "map filepath (images six_pending)
     = [''images/f.jpg'', ''images/e.jpg'', ''images/d.jpg'', ''images/c.jpg'',
        ''images/b.jpg'', ''images/a.jpg'']
   \<and> upload_calls (upload_worker_cycle example_enc always_ok writes_ok True 0
        (initial_app six_pending))
     = [''images/f.jpg'', ''images/e.jpg'', ''images/d.jpg'', ''images/c.jpg'', ''images/b.jpg'']"
  by (simp add: upload_worker_cycle_def six_pending_images initial_app_def empty_storage_def
      get_upload_queue_def is_uploaded_def describe_def always_ok_def truthy_def
      call_upload_def count_failure_def count_success_def mark_in_app_def uploaded_mark
      images_mark Let_def)



text \<open>
  Claim C6 is about five pending images, a first upload that succeeds and a second
  that fails. When two pending descriptions share the first one's file name (the same
  file added twice), marking that name takes both out of the upload queue, and three
  images stay pending, not four.
\<close>

theorem drain_duplicate_counterexample:
  "length (get_upload_queue (storage_manager (initial_app five_with_duplicate))) = 5
   \<and> upload_ok (second_fails 0) \<and> \<not> upload_ok (second_fails 1)
   \<and> map filename (get_upload_queue (storage_manager (upload_worker_cycle example_enc
        second_fails writes_ok True 0 (initial_app five_with_duplicate))))
      = [''b.jpg'', ''c.jpg'', ''d.jpg'']"
  by (simp add: upload_worker_cycle_def five_with_duplicate_images initial_app_def
      empty_storage_def get_upload_queue_def is_uploaded_def describe_def second_fails_def
      upload_ok_def truthy_def call_upload_def count_failure_def count_success_def
      mark_in_app_def uploaded_mark images_mark Let_def)

text \<open>
  Claim C6, amended. With exactly five pending images, of which the first tried does
  not share its file name with any of the other four, a first upload that succeeds and
  a second that fails, one cycle of the upload worker calls the uploader for these two
  images only, marks the first as uploaded and nothing else, counts one success and one
  failure, and leaves the other four pending.
\<close>

theorem drain_abort:
  assumes q: "get_upload_queue (storage_manager a) = [e1, e2, e3, e4, e5]"
    and d: "filename e1 \<notin> set (map filename [e2, e3, e4, e5])"
    and ok: "upload_ok (up 0)" and fail: "\<not> upload_ok (up 1)"
  shows "uploaded_images (storage_manager (upload_worker_cycle enc up wr True now a))
           = insert (filename e1) (uploaded_images (storage_manager a))
       \<and> get_upload_queue (storage_manager (upload_worker_cycle enc up wr True now a))
           = [e2, e3, e4, e5]
       \<and> upload_calls (upload_worker_cycle enc up wr True now a)
           = upload_calls a @ [filepath e1, filepath e2]
       \<and> successful_uploads (status (upload_worker_cycle enc up wr True now a))
           = successful_uploads (status a) + 1
       \<and> failed_uploads (status (upload_worker_cycle enc up wr True now a))
           = failed_uploads (status a) + 1
       \<and> pending_uploads (status (upload_worker_cycle enc up wr True now a)) = 4"
proof -
  let ?a0 = "a\<lparr>status := (status a)\<lparr>online := True, last_check := now\<rparr>\<rparr>"
  let ?a1 = "mark_in_app enc (count_success (call_upload ?a0 (filepath e1))) (filename e1) (wr 0)"
  let ?a2 = "count_failure (call_upload ?a1 (filepath e2))"
  have batch: "upload_batch enc up wr 0 [e1, e2, e3, e4, e5] ?a0 = ?a2"
  proof -
    from fail have fail': "\<not> upload_ok (up (Suc 0))" by simp
    show ?thesis
      by (simp only: upload_batch_ok [of up 0, OF ok] upload_batch_fail [of up "Suc 0", OF fail'])
  qed
  have sm: "storage_manager ?a2 = mark_as_uploaded enc (storage_manager a) (filename e1) (wr 0)"
    by (simp add: count_failure_def call_upload_def mark_in_app_def count_success_def)
  have pend: "get_upload_queue (storage_manager ?a2) = [e2, e3, e4, e5]"
    using d by (auto simp: sm get_upload_queue_mark q)
  have cyc: "upload_worker_cycle enc up wr True now a =
      ?a2\<lparr>status := (status ?a2)\<lparr>pending_uploads := 4\<rparr>\<rparr>"
    using batch pend by (simp add: upload_worker_cycle_def q Let_def)
  show ?thesis
    unfolding cyc
    using pend
    by (simp add: count_failure_def call_upload_def mark_in_app_def count_success_def uploaded_mark)
qed

theorem drain_abort_witness:
  "get_upload_queue (storage_manager (upload_worker_cycle example_enc second_fails writes_ok
      True 0 (initial_app five_pending)))
     = [describe utc ''images/d.jpg'' stat0, describe utc ''images/c.jpg'' stat0,
        describe utc ''images/b.jpg'' stat0, describe utc ''images/a.jpg'' stat0]
   \<and> uploaded_images (storage_manager (upload_worker_cycle example_enc second_fails writes_ok
      True 0 (initial_app five_pending))) = {''e.jpg''}
   \<and> pending_uploads (status (upload_worker_cycle example_enc second_fails writes_ok
      True 0 (initial_app five_pending))) = 4"
proof -
  have q: "get_upload_queue (storage_manager (initial_app five_pending))
      = [describe utc ''images/e.jpg'' stat0, describe utc ''images/d.jpg'' stat0,
         describe utc ''images/c.jpg'' stat0, describe utc ''images/b.jpg'' stat0,
         describe utc ''images/a.jpg'' stat0]"
    by (simp add: five_pending_images initial_app_def empty_storage_def get_upload_queue_def
        is_uploaded_def)
  have d: "filename (describe utc ''images/e.jpg'' stat0)
      \<notin> set (map filename [describe utc ''images/d.jpg'' stat0, describe utc ''images/c.jpg'' stat0,
          describe utc ''images/b.jpg'' stat0, describe utc ''images/a.jpg'' stat0])"
    by (simp add: describe_def)
  have ok: "upload_ok (second_fails 0)"
    by (simp add: second_fails_def upload_ok_def truthy_def)
  have fail: "\<not> upload_ok (second_fails 1)"
    by (simp add: second_fails_def upload_ok_def truthy_def)
  have u: "uploaded_images (storage_manager (initial_app five_pending)) = {}"
    by (simp add: five_pending_images initial_app_def empty_storage_def)
  have f: "filename (describe utc ''images/e.jpg'' stat0) = ''e.jpg''"
    by (simp add: describe_def)
  from drain_abort [OF q d ok fail, of example_enc writes_ok 0] show ?thesis
    by (simp only: u f)
qed

section \<open>The poll loop fires on falling edges only\<close>

lemma falling_edges_append:
  "falling_edges (p # vs @ ws) = falling_edges (p # vs) + falling_edges (last (p # vs) # ws)"
proof (induction vs arbitrary: p)
  case Nil
  show ?case by simp
next
  case (Cons v vs)
  show ?case using Cons.IH [of v] by simp
qed

lemma falling_edges_low: "set vs \<subseteq> {0} \<Longrightarrow> falling_edges (p # vs) \<le> 1"
proof (induction vs arbitrary: p)
  case Nil
  show ?case by simp
next
  case (Cons v vs)
  from Cons.prems have v: "v = 0" and vs: "set vs \<subseteq> {0}" by auto
  have "falling_edges (0 # vs) = 0" using vs
  proof (induction vs)
    case Nil
    show ?case by simp
  next
    case (Cons w ws)
    then show ?case by auto
  qed
  then show ?case by (simp add: v)
qed

lemma falling_edges_two: "falling_edges [p, 1, 0, 1, 0] = 2"
  by simp

lemma advances_refl: "advances c p g g"
  unfolding advances_def by (intro conjI exI [of _ "[]"]) simp_all

lemma advances_trans:
  assumes "advances c p g g'" and "advances c p g' g''"
  shows "advances c p g g''"
proof -
  from assms(1) obtain vs where 1: "pins g' = pins g" "callbacks g' = callbacks g"
    "monitoring g' = monitoring g" "samples_of g' c = samples_of g c @ vs"
    "fired_count g' c = fired_count g c + falling_edges (previous_state g p # vs)"
    "previous_state g' p = last (previous_state g p # vs)"
    unfolding advances_def by blast
  from assms(2) obtain ws where 2: "pins g'' = pins g'" "callbacks g'' = callbacks g'"
    "monitoring g'' = monitoring g'" "samples_of g'' c = samples_of g' c @ ws"
    "fired_count g'' c = fired_count g' c + falling_edges (previous_state g' p # ws)"
    "previous_state g'' p = last (previous_state g' p # ws)"
    unfolding advances_def by blast
  have s: "samples_of g'' c = samples_of g c @ (vs @ ws)" using 1 2 by simp
  have f: "fired_count g'' c = fired_count g c + falling_edges (previous_state g p # (vs @ ws))"
    using 1 2 falling_edges_append [of "previous_state g p" vs ws] by simp
  have l: "previous_state g'' p = last (previous_state g p # (vs @ ws))"
    using 1 2 by (cases ws) simp_all
  show ?thesis
    unfolding advances_def using 1 2 s f l by (intro conjI exI [of _ "vs @ ws"]) simp_all
qed

lemma sample_pin_same:
  "advances c p g (sample_pin g c p v)"
  unfolding advances_def
  by (intro conjI exI [of _ "[v]"])
    (simp_all add: sample_pin_def samples_of_def fired_count_def previous_state_def Let_def)

lemma sample_pin_other:
  "c' \<noteq> c \<Longrightarrow> p' \<noteq> p \<Longrightarrow> advances c p g (sample_pin g c' p' v)"
  unfolding advances_def
  by (intro conjI exI [of _ "[]"])
    (simp_all add: sample_pin_def samples_of_def fired_count_def previous_state_def Let_def)

lemma poll_pins_advances:
  "apart c p (callbacks g) ps \<Longrightarrow> advances c p g (poll_pins rd ps g)"
proof (induction ps arbitrary: g)
  case Nil
  show ?case by (simp add: advances_refl)
next
  case (Cons e ps)
  obtain c' p' where e: "e = (c', p')" by (cases e)
  from Cons.prems have rest: "apart c p (callbacks g) ps" by (simp add: apart_def)
  show ?case
  proof (cases "c' \<in> callbacks g")
    case False
    with Cons.IH [OF rest] show ?thesis by (simp add: e)
  next
    case True
    show ?thesis
    proof (cases "rd p'")
      case None
      with True show ?thesis by (simp add: e advances_refl)
    next
      case (Some v)
      have step: "advances c p g (sample_pin g c' p' v)"
      proof (cases "c' = c")
        case True
        with Cons.prems \<open>c' \<in> callbacks g\<close> have "p' = p" by (simp add: apart_def e)
        with True show ?thesis by (simp add: sample_pin_same)
      next
        case False
        with Cons.prems \<open>c' \<in> callbacks g\<close> have "p' \<noteq> p" by (simp add: apart_def e)
        with False show ?thesis by (simp add: sample_pin_other)
      qed
      then have cb: "callbacks (sample_pin g c' p' v) = callbacks g" by (simp add: advances_def)
      from rest have "apart c p (callbacks (sample_pin g c' p' v)) ps" by (simp add: cb)
      from Cons.IH [OF this] have "advances c p (sample_pin g c' p' v)
          (poll_pins rd ps (sample_pin g c' p' v))" .
      with step have "advances c p g (poll_pins rd ps (sample_pin g c' p' v))"
        by (rule advances_trans)
      with True Some show ?thesis by (simp add: e)
    qed
  qed
qed

lemma monitor_pins_advances:
  "apart c p (callbacks g) (pins g) \<Longrightarrow> advances c p g (monitor_pins rds g)"
proof (induction rds arbitrary: g)
  case Nil
  show ?case by (simp add: advances_refl)
next
  case (Cons rd rds)
  show ?case
  proof (cases "monitoring g")
    case False
    then show ?thesis by (simp add: advances_refl)
  next
    case True
    have step: "advances c p g (poll_pins rd (pins g) g)"
      using Cons.prems by (rule poll_pins_advances)
    then have "apart c p (callbacks (poll_pins rd (pins g) g)) (pins (poll_pins rd (pins g) g))"
      using Cons.prems by (simp add: advances_def)
    from Cons.IH [OF this] step have "advances c p g (monitor_pins rds (poll_pins rd (pins g) g))"
      using advances_trans by blast
    with True show ?thesis by simp
  qed
qed

lemma apart_from_pins:
  assumes "distinct (map fst (pins g))" and "(c, p) \<in> set (pins g)" and "\<not> pin_shared g c p"
  shows "apart c p (callbacks g) (pins g)"
proof -
  have "fst e \<in> callbacks g \<longrightarrow> (if fst e = c then snd e = p else snd e \<noteq> p)"
    if e: "e \<in> set (pins g)" for e
  proof (cases "fst e = c")
    case True
    from assms(1) assms(2) e True have "e = (c, p)"
      by (metis eq_key_imp_eq_value prod.collapse)
    then show ?thesis by simp
  next
    case False
    from assms(3) e have "\<not> (fst e \<noteq> c \<and> fst e \<in> callbacks g \<and> snd e = p)"
      by (auto simp: pin_shared_def filter_empty_conv)
    with False show ?thesis by auto
  qed
  then show ?thesis by (simp add: apart_def list_all_iff)
qed

lemma two_cameras_samples:
  "samples_of (monitor_pins [line_reads 1, line_reads 0, line_reads 1, line_reads 0] two_cameras) ''camera_1'' = [1, 0, 1, 0]"
  by (simp add: two_cameras_def line_reads_def sample_pin_def previous_state_def samples_of_def Let_def)

text \<open>
  Claim C8 speaks of every monitored camera that has a callback. The loop stores the
  last value by pin, not by camera. When two cameras with callbacks are configured on
  one pin, the first of them stores each value before the second compares: the second
  camera samples high, low, high, low and its callback is never called.
\<close>

theorem shared_pin_counterexample:
  "samples_of (monitor_pins [line_reads 1, line_reads 0, line_reads 1, line_reads 0] shared_pin)
      ''camera_2'' = [1, 0, 1, 0]
   \<and> fired_count (monitor_pins [line_reads 1, line_reads 0, line_reads 1, line_reads 0]
      shared_pin) ''camera_2'' = 0
   \<and> fired_count (monitor_pins [line_reads 1, line_reads 0, line_reads 1, line_reads 0]
      shared_pin) ''camera_1'' = 2"
  by (simp add: shared_pin_def line_reads_def sample_pin_def previous_state_def samples_of_def
      fired_count_def Let_def)

text \<open>
  Claim C8, amended. Take a camera \<open>c\<close> of the dictionary \<open>pins\<close>, on pin \<open>p\<close>, whose pin
  is not the pin of another camera with a callback. Over any run of the poll loop, the
  values sampled for \<open>c\<close> are appended to those sampled before, and the callback of
  \<open>c\<close> is called exactly once for every place where a high value is followed by a low
  value in the sequence made of the value stored for the pin at the start and the values
  sampled during the run. So a line that is sampled low throughout fires at most once,
  and the samples high, low, high, low fire exactly twice.
\<close>

theorem edge_only_trigger:
  assumes "distinct (map fst (pins g))" and "(c, p) \<in> set (pins g)" and "\<not> pin_shared g c p"
  shows "samples_of (monitor_pins rds g) c
           = samples_of g c @ drop (length (samples_of g c)) (samples_of (monitor_pins rds g) c)
       \<and> fired_count (monitor_pins rds g) c
           = fired_count g c
             + falling_edges (previous_state g p
                 # drop (length (samples_of g c)) (samples_of (monitor_pins rds g) c))
       \<and> (set (drop (length (samples_of g c)) (samples_of (monitor_pins rds g) c)) \<subseteq> {0}
            \<longrightarrow> fired_count (monitor_pins rds g) c \<le> fired_count g c + 1)
       \<and> (drop (length (samples_of g c)) (samples_of (monitor_pins rds g) c) = [1, 0, 1, 0]
            \<longrightarrow> fired_count (monitor_pins rds g) c = fired_count g c + 2)"
proof -
  let ?g = "monitor_pins rds g"
  from assms have "apart c p (callbacks g) (pins g)" by (rule apart_from_pins)
  then have "advances c p g ?g" by (rule monitor_pins_advances)
  then obtain vs where s: "samples_of ?g c = samples_of g c @ vs"
    and f: "fired_count ?g c = fired_count g c + falling_edges (previous_state g p # vs)"
    unfolding advances_def by blast
  have vs: "drop (length (samples_of g c)) (samples_of ?g c) = vs" by (simp add: s)
  show ?thesis
    unfolding vs using s f falling_edges_low [of vs "previous_state g p"]
      falling_edges_two [of "previous_state g p"]
    by auto
qed

theorem edge_only_trigger_witness:
  "fired_count (monitor_pins [line_reads 1, line_reads 0, line_reads 1, line_reads 0] two_cameras) ''camera_1'' = 2
   \<and> fired_count (monitor_pins [line_reads 0, line_reads 0, line_reads 0] two_cameras) ''camera_1'' \<le> 1"
proof -
  have d: "distinct (map fst (pins two_cameras))" by (simp add: two_cameras_def)
  have m: "(''camera_1'', 18) \<in> set (pins two_cameras)" by (simp add: two_cameras_def)
  have n: "\<not> pin_shared two_cameras ''camera_1'' 18" by (simp add: two_cameras_def pin_shared_def)
  have s0: "samples_of two_cameras ''camera_1'' = []" by (simp add: two_cameras_def samples_of_def)
  have f0: "fired_count two_cameras ''camera_1'' = 0" by (simp add: two_cameras_def fired_count_def)
  have p0: "previous_state two_cameras 18 = 1" by (simp add: two_cameras_def previous_state_def)
  have s2: "samples_of (monitor_pins [line_reads 0, line_reads 0, line_reads 0] two_cameras) ''camera_1'' = [0, 0, 0]"
    by (simp add: two_cameras_def line_reads_def sample_pin_def previous_state_def samples_of_def Let_def)
  from edge_only_trigger [OF d m n, of "[line_reads 1, line_reads 0, line_reads 1, line_reads 0]"]
    edge_only_trigger [OF d m n, of "[line_reads 0, line_reads 0, line_reads 0]"]
  show ?thesis
    by (simp add: s0 f0 p0 two_cameras_samples s2 del: monitor_pins.simps)
qed

end
